theory Spec2Isabelle
  imports Main
begin

section \<open>CatXL treaties and the optimal-window search of \<open>helpers.py\<close>\<close>

text \<open>
  The treaty constructors \<open>treaty_CatXL\<close>, \<open>treaty_inuring_CatXL\<close> and
  \<open>treaty_CatXL_program\<close> of the source check their parameters with \<open>assert\<close> and return a
  closure from a sequence of losses to a payout; \<open>find_window\<close> scans a timeline and calls
  such a closure on the losses of every window.

  Numbers: Python's numeric values are modelled by an arbitrary linearly ordered ring
  (\<open>linordered_idom\<close>), which covers the unbounded integers and the reals; the rounding of
  floating-point arithmetic is not modelled. Times and amounts have their own type variables.
  A raised exception is a value \<open>Inl e\<close>; the closures have the type of a Python callable
  that may raise, \<open>'a list \<Rightarrow> error + 'a\<close>.
\<close>

datatype error = AssertionError | IndexError

subsection \<open>Treaties\<close>

text \<open>The closure returned by \<open>treaty_CatXL\<close>:
  \<^verbatim>\<open>lambda losses: min(max(sum(losses) - deductible, 0), limit - deductible)\<close>.\<close>

definition treaty_CatXL_lambda :: "'a::linordered_idom \<Rightarrow> 'a \<Rightarrow> 'a list \<Rightarrow> error + 'a" where
  "treaty_CatXL_lambda deductible limit losses =
     Inr (min (max (sum_list losses - deductible) 0) (limit - deductible))"

definition treaty_CatXL ::
  "'a::linordered_idom \<Rightarrow> 'a \<Rightarrow> error + ('a list \<Rightarrow> error + 'a)" where
  "treaty_CatXL deductible limit =
     (if limit > deductible then Inr (treaty_CatXL_lambda deductible limit)
      else Inl AssertionError)"

text \<open>The closure \<open>res_func\<close> of \<open>treaty_inuring_CatXL\<close>; it builds the first layer with
  \<open>treaty_CatXL\<close> on every call.\<close>

definition treaty_inuring_CatXL_res_func ::
  "'a::linordered_idom \<Rightarrow> 'a \<Rightarrow> 'a \<Rightarrow> 'a \<Rightarrow> 'a list \<Rightarrow> error + 'a" where
  "treaty_inuring_CatXL_res_func d1 l1 d2 l2 losses =
     (case treaty_CatXL d1 l1 of
        Inl e \<Rightarrow> Inl e
      | Inr layer1 \<Rightarrow>
          (case layer1 losses of
             Inl e \<Rightarrow> Inl e
           | Inr payout1 \<Rightarrow>
               (let leftover = sum_list losses - payout1;
                    payout2 = min (max (leftover - d2) 0) (l2 - d2)
                in Inr (payout1 + payout2))))"

definition treaty_inuring_CatXL ::
  "'a::linordered_idom \<Rightarrow> 'a \<Rightarrow> 'a \<Rightarrow> 'a \<Rightarrow> error + ('a list \<Rightarrow> error + 'a)" where
  "treaty_inuring_CatXL d1 l1 d2 l2 =
     (if l1 > d1 \<and> l2 > d2 then Inr (treaty_inuring_CatXL_res_func d1 l1 d2 l2)
      else Inl AssertionError)"

text \<open>The validation loop of \<open>treaty_CatXL_program\<close> over \<open>enumerate(dVec)\<close>. Reading
  \<open>lVec[i]\<close> past the end of \<open>lVec\<close> raises \<open>IndexError\<close>; \<open>lVec[i-1]\<close> is read only for
  \<open>i > 0\<close>, after \<open>lVec[i]\<close>, so it is in range.\<close>

fun program_check :: "'a::linordered_idom list \<Rightarrow> (nat \<times> 'a) list \<Rightarrow> error + unit" where
  "program_check lVec [] = Inr ()"
| "program_check lVec ((i, d) # rest) =
     (if i < length lVec then
        (if d < lVec ! i then
           (if i > 0 then
              (if d \<ge> lVec ! (i - 1) then program_check lVec rest else Inl AssertionError)
            else program_check lVec rest)
         else Inl AssertionError)
      else Inl IndexError)"

text \<open>The closure \<open>res_func\<close> of \<open>treaty_CatXL_program\<close>:
  \<^verbatim>\<open>sum(treaty_CatXL(d, lVec[i])(losses) for i, d in enumerate(dVec))\<close>;
  \<open>sum\<close> adds the payouts to an accumulator that starts at 0, from left to right.\<close>

fun program_sum ::
  "'a::linordered_idom list \<Rightarrow> 'a list \<Rightarrow> (nat \<times> 'a) list \<Rightarrow> 'a \<Rightarrow> error + 'a" where
  "program_sum lVec losses [] acc = Inr acc"
| "program_sum lVec losses ((i, d) # rest) acc =
     (if i < length lVec then
        (case treaty_CatXL d (lVec ! i) of
           Inl e \<Rightarrow> Inl e
         | Inr layer \<Rightarrow>
             (case layer losses of
                Inl e \<Rightarrow> Inl e
              | Inr payout \<Rightarrow> program_sum lVec losses rest (acc + payout)))
      else Inl IndexError)"

definition treaty_CatXL_program_res_func ::
  "'a::linordered_idom list \<Rightarrow> 'a list \<Rightarrow> 'a list \<Rightarrow> error + 'a" where
  "treaty_CatXL_program_res_func dVec lVec losses =
     program_sum lVec losses (enumerate 0 dVec) 0"

definition treaty_CatXL_program ::
  "'a::linordered_idom list \<Rightarrow> 'a list \<Rightarrow> error + ('a list \<Rightarrow> error + 'a)" where
  "treaty_CatXL_program dVec lVec =
     (case program_check lVec (enumerate 0 dVec) of
        Inl e \<Rightarrow> Inl e
      | Inr _ \<Rightarrow> Inr (treaty_CatXL_program_res_func dVec lVec))"

subsection \<open>The window search\<close>

text \<open>Indexing an array with a boolean array, \<open>xs[flags]\<close>: the entries of \<open>xs\<close> at the
  positions where \<open>flags\<close> holds. NumPy raises \<open>IndexError\<close> when the two lengths differ;
  that happens only when \<open>timeVec\<close> and \<open>lossVec\<close> have different lengths, never on the
  two vectors of a timeline.\<close>

definition mask_select :: "'a list \<Rightarrow> bool list \<Rightarrow> error + 'a list" where
  "mask_select xs flags =
     (if length flags = length xs then Inr (map fst (filter snd (zip xs flags)))
      else Inl IndexError)"

text \<open>The first two lines of the loop body, for the anchor \<open>t\<close> at index \<open>i\<close>:
  \<^verbatim>\<open>curTimes = timeVec[i:] < t + windowLen; curLosses = lossVec[i:][curTimes]\<close>.\<close>

definition curLosses ::
  "'t::linordered_idom \<Rightarrow> 't list \<Rightarrow> 'a list \<Rightarrow> nat \<Rightarrow> 't \<Rightarrow> error + 'a list" where
  "curLosses windowLen timeVec lossVec i t =
     (let curTimes = map (\<lambda>u. u < t + windowLen) (drop i timeVec)
      in mask_select (drop i lossVec) curTimes)"

text \<open>The loop of \<open>find_window\<close> over \<open>enumerate(timeVec)\<close>, with the two variables it
  updates, \<open>maxPayout\<close> and \<open>bestTimes\<close>, as explicit state. The equality test comes first,
  as in the source. Printing is left out.\<close>

fun find_window_loop ::
  "'t::linordered_idom \<Rightarrow> ('a::linordered_idom list \<Rightarrow> error + 'a) \<Rightarrow> 't list \<Rightarrow> 'a list
     \<Rightarrow> (nat \<times> 't) list \<Rightarrow> 'a \<times> 't list \<Rightarrow> error + 'a \<times> 't list" where
  "find_window_loop windowLen treatyFunc timeVec lossVec [] (maxPayout, bestTimes) =
     Inr (maxPayout, bestTimes)"
| "find_window_loop windowLen treatyFunc timeVec lossVec ((i, t) # rest) (maxPayout, bestTimes) =
     (case curLosses windowLen timeVec lossVec i t of
        Inl e \<Rightarrow> Inl e
      | Inr losses \<Rightarrow>
          (case treatyFunc losses of
             Inl e \<Rightarrow> Inl e
           | Inr payout \<Rightarrow>
               (if payout = maxPayout then
                  find_window_loop windowLen treatyFunc timeVec lossVec rest
                    (maxPayout, bestTimes @ [t])
                else if payout > maxPayout then
                  find_window_loop windowLen treatyFunc timeVec lossVec rest (payout, [t])
                else
                  find_window_loop windowLen treatyFunc timeVec lossVec rest
                    (maxPayout, bestTimes))))"

text \<open>\<open>find_window\<close> returns the triple \<open>(bestTimes[0], bestTimes, maxPayout)\<close>;
  \<open>bestTimes[0]\<close> raises \<open>IndexError\<close> on the empty list.\<close>

definition find_window ::
  "'t::linordered_idom \<Rightarrow> ('a::linordered_idom list \<Rightarrow> error + 'a) \<Rightarrow> 't list \<Rightarrow> 'a list
     \<Rightarrow> error + 't \<times> 't list \<times> 'a" where
  "find_window windowLen treatyFunc timeVec lossVec =
     (case find_window_loop windowLen treatyFunc timeVec lossVec (enumerate 0 timeVec) (0, []) of
        Inl e \<Rightarrow> Inl e
      | Inr (maxPayout, bestTimes) \<Rightarrow>
          (case bestTimes of
             [] \<Rightarrow> Inl IndexError
           | b # _ \<Rightarrow> Inr (b, bestTimes, maxPayout)))"

text \<open>The specification's view: a timeline is a sequence of (time, amount) events, handed to
  \<open>find_window\<close> as the vector of its times and the vector of its amounts; the result is
  (canonicalBestTime, allBestTimes, maxPayout).\<close>

definition findOptimalWindow ::
  "('t::linordered_idom \<times> 'a::linordered_idom) list \<Rightarrow> 't \<Rightarrow> ('a list \<Rightarrow> error + 'a)
     \<Rightarrow> error + 't \<times> 't list \<times> 'a" where
  "findOptimalWindow timeline windowLength evaluator =
     find_window windowLength evaluator (map fst timeline) (map snd timeline)"

text \<open>The amounts of the events in the window anchored at event \<open>i\<close> of a timeline: the
  events from \<open>i\<close> on whose time is below the anchor's time plus the window length.\<close>

definition window_amounts :: "('t::linordered_idom \<times> 'a) list \<Rightarrow> 't \<Rightarrow> nat \<Rightarrow> 'a list" where
  "window_amounts timeline windowLength i =
     map snd (filter (\<lambda>e. fst e < fst (timeline ! i) + windowLength) (drop i timeline))"

subsection \<open>Notions of the specification\<close>

text \<open>The specification's \<open>clamp(x, lo, hi) = min(max(x, lo), hi)\<close>, and the payout of one
  layer (deductible, limit) on an aggregate loss.\<close>

definition clamp :: "'a::linordered_idom \<Rightarrow> 'a \<Rightarrow> 'a \<Rightarrow> 'a" where
  "clamp x lo hi = min (max x lo) hi"

definition layer_payout :: "'a::linordered_idom \<Rightarrow> 'a \<times> 'a \<Rightarrow> 'a" where
  "layer_payout aggregate layer = clamp (aggregate - fst layer) 0 (snd layer - fst layer)"

text \<open>A validated Program, as the specification words it: every layer's deductible is below
  its limit, and every later layer's deductible is at or above the previous layer's limit.\<close>

fun valid_program :: "('a::linordered_idom \<times> 'a) list \<Rightarrow> bool" where
  "valid_program [] = True"
| "valid_program [(d, l)] = (d < l)"
| "valid_program ((d, l) # (d', l') # rest) =
     (d < l \<and> l \<le> d' \<and> valid_program ((d', l') # rest))"



section \<open>Properties of the treaties\<close>

lemma treaty_CatXL_lambda_clamp:
  "treaty_CatXL_lambda d l losses = Inr (layer_payout (sum_list losses) (d, l))"
  by (simp add: treaty_CatXL_lambda_def layer_payout_def clamp_def)

lemma layer_payout_le:
  "fst layer < snd layer \<Longrightarrow> layer_payout aggregate layer \<le> snd layer - fst layer"
  by (simp add: layer_payout_def clamp_def)




subsection \<open>Programs\<close>

lemma program_check_tail:
  "program_check lVec ((i, d) # rest) = Inr () \<Longrightarrow>
     i < length lVec \<and> d < lVec ! i \<and> program_check lVec rest = Inr ()"
  by (simp split: if_splits)

text \<open>Once the validation loop has passed, the closure returns the sum of the layers'
  payouts, each on the whole of the losses.\<close>

lemma program_sum_checked:
  "program_check lVec (enumerate n ds) = Inr () \<Longrightarrow>
   program_sum lVec losses (enumerate n ds) acc =
     Inr (acc + sum_list (map (layer_payout (sum_list losses)) (zip ds (drop n lVec))))"
proof (induction ds arbitrary: n acc)
  case Nil
  then show ?case by simp
next
  case (Cons d ds)
  have "program_check lVec ((n, d) # enumerate (Suc n) ds) = Inr ()"
    using Cons.prems by simp
  from program_check_tail [OF this]
  have n: "n < length lVec" and dl: "d < lVec ! n"
    and rest: "program_check lVec (enumerate (Suc n) ds) = Inr ()"
    by blast+
  have dr: "drop n lVec = lVec ! n # drop (Suc n) lVec"
    using n by (simp add: Cons_nth_drop_Suc)
  show ?case
    using n dl Cons.IH [OF rest, of "acc + layer_payout (sum_list losses) (d, lVec ! n)"]
    by (simp add: dr treaty_CatXL_def treaty_CatXL_lambda_clamp add.assoc)
qed


text \<open>The validation loop accepts the deductibles and limits of a validated Program; \<open>pre\<close>
  is the part of the program that the loop has already gone through.\<close>

lemma program_check_valid:
  "valid_program prog \<Longrightarrow>
   (pre \<noteq> [] \<and> prog \<noteq> [] \<longrightarrow> snd (last pre) \<le> fst (hd prog)) \<Longrightarrow>
   program_check (map snd (pre @ prog)) (enumerate (length pre) (map fst prog)) = Inr ()"
proof (induction prog arbitrary: pre)
  case Nil
  then show ?case by simp
next
  case (Cons x prog)
  obtain d l where x: "x = (d, l)" by (cases x)
  have dl: "d < l" using Cons.prems(1) x by (cases prog) auto
  have v: "valid_program prog" using Cons.prems(1) x by (cases prog) auto
  have nxt: "prog \<noteq> [] \<longrightarrow> l \<le> fst (hd prog)" using Cons.prems(1) x by (cases prog) auto
  have prev: "pre \<noteq> [] \<longrightarrow> snd (last pre) \<le> d" using Cons.prems(2) x by simp
  have IH: "program_check (map snd ((pre @ [x]) @ prog))
              (enumerate (length (pre @ [x])) (map fst prog)) = Inr ()"
    using Cons.IH [of "pre @ [x]"] v nxt x by simp
  have lst: "pre \<noteq> [] \<Longrightarrow> map snd pre ! (length pre - Suc 0) = snd (last pre)"
    by (simp add: last_conv_nth)
  show ?case using IH dl prev x lst
    by (auto simp: nth_append)
qed

lemma valid_program_layers: "valid_program prog \<Longrightarrow> \<forall>layer\<in>set prog. fst layer < snd layer"
  by (induction prog rule: valid_program.induct) auto

lemma valid_program_construct:
  assumes "valid_program prog"
  shows "treaty_CatXL_program (map fst prog) (map snd prog) =
           Inr (treaty_CatXL_program_res_func (map fst prog) (map snd prog))"
    and "treaty_CatXL_program_res_func (map fst prog) (map snd prog) losses =
           Inr (sum_list (map (layer_payout (sum_list losses)) prog))"
proof -
  have chk: "program_check (map snd prog) (enumerate 0 (map fst prog)) = Inr ()"
    using program_check_valid [OF assms, of "[]"] by simp
  show "treaty_CatXL_program (map fst prog) (map snd prog) =
           Inr (treaty_CatXL_program_res_func (map fst prog) (map snd prog))"
    by (simp add: treaty_CatXL_program_def chk)
  show "treaty_CatXL_program_res_func (map fst prog) (map snd prog) losses =
           Inr (sum_list (map (layer_payout (sum_list losses)) prog))"
    using program_sum_checked [OF chk, of losses 0]
    by (simp add: treaty_CatXL_program_res_func_def zip_map_fst_snd)
qed

subsection \<open>Every treaty evaluator returns a non-negative payout\<close>


section \<open>Properties of the window search\<close>

subsection \<open>The windows of a timeline\<close>

lemma mask_select_zip:
  "mask_select (map snd es) (map (\<lambda>e. P (fst e)) es) =
     Inr (map snd (filter (\<lambda>e. P (fst e)) es))"
proof -
  have "map fst (filter snd (zip (map snd es) (map (\<lambda>e. P (fst e)) es))) =
      map snd (filter (\<lambda>e. P (fst e)) es)"
    by (induction es) auto
  then show ?thesis by (simp add: mask_select_def)
qed

lemma curLosses_timeline:
  "curLosses w (map fst es) (map snd es) i (fst (es ! i)) = Inr (window_amounts es w i)"
  using mask_select_zip [of "drop i es" "\<lambda>u. u < fst (es ! i) + w"]
  by (simp add: curLosses_def window_amounts_def drop_map comp_def)

lemma enumerate_timeline:
  "enumerate 0 (map fst es) = map (\<lambda>k. (k, fst (es ! k))) [0..<length es]"
  by (rule nth_equalityI) (simp_all add: nth_enumerate_eq)


text \<open>With a window length that is not positive, every window of a sorted timeline is
  empty: not even the anchor lies in it.\<close>

lemma window_amounts_empty:
  assumes "sorted (map fst es)" "w \<le> 0" "k < length es"
  shows "window_amounts es w k = []"
proof -
  have "\<not> fst e < fst (es ! k) + w" if "e \<in> set (drop k es)" for e
  proof -
    from that obtain j where j: "e = drop k es ! j" "j < length es - k"
      by (auto simp: in_set_conv_nth)
    then have "e = es ! (k + j)" "k + j < length es" by simp_all
    then have "fst (es ! k) \<le> fst e"
      using sorted_nth_mono [OF assms(1), of k "k + j"] by simp
    then show ?thesis using assms(2) by simp
  qed
  then show ?thesis by (simp add: window_amounts_def)
qed

subsection \<open>What the scan computes\<close>

lemma fold_max_ge: "(m::'a::linorder) \<le> fold max ps m"
proof (induction ps arbitrary: m)
  case Nil
  show ?case by simp
next
  case (Cons p ps)
  have "m \<le> max p m" by simp
  also have "\<dots> \<le> fold max ps (max p m)" by (rule Cons.IH)
  finally show ?case by simp
qed

lemma fold_max_eq:
  fixes P :: "'a::linorder"
  shows "\<forall>p\<in>set ps. p \<le> P \<Longrightarrow> m \<le> P \<Longrightarrow> P \<in> set ps \<or> m = P \<Longrightarrow> fold max ps m = P"
proof (induction ps arbitrary: m)
  case Nil
  then show ?case by simp
next
  case (Cons p ps)
  have "fold max ps (max p m) = P"
  proof (rule Cons.IH)
    show "\<forall>p\<in>set ps. p \<le> P" using Cons.prems(1) by simp
    show "max p m \<le> P" using Cons.prems(1,2) by simp
    show "P \<in> set ps \<or> max p m = P" using Cons.prems by (auto simp: max_def)
  qed
  then show ?case by simp
qed

text \<open>The loop, started with the maximum \<open>m\<close> and the best times \<open>b\<close>, on anchors whose
  windows the evaluator pays \<open>pay i\<close>: it ends with the greatest of \<open>m\<close> and the payouts, and
  with the times of the anchors that pay it, after \<open>b\<close> if that greatest value is \<open>m\<close>.\<close>

lemma find_window_loop_result:
  assumes "\<forall>(i, t)\<in>set its. \<exists>ls. curLosses w tv lv i t = Inr ls \<and> f ls = Inr (pay i)"
  shows "find_window_loop w f tv lv its (m, b) =
     Inr (fold max (map (\<lambda>(i, t). pay i) its) m,
          (if fold max (map (\<lambda>(i, t). pay i) its) m = m then b else []) @
            map snd (filter (\<lambda>(i, t). pay i = fold max (map (\<lambda>(i, t). pay i) its) m) its))"
  using assms
proof (induction its arbitrary: m b)
  case Nil
  show ?case by simp
next
  case (Cons x its)
  obtain i t where x: "x = (i, t)" by (cases x)
  from Cons.prems x obtain ls where ls: "curLosses w tv lv i t = Inr ls" "f ls = Inr (pay i)"
    by auto
  have rest: "\<forall>(i, t)\<in>set its. \<exists>ls. curLosses w tv lv i t = Inr ls \<and> f ls = Inr (pay i)"
    using Cons.prems by simp
  note IH = Cons.IH [OF rest]
  let ?M = "\<lambda>m. fold max (map (\<lambda>(i, t). pay i) its) m"
  consider (eq) "pay i = m" | (gt) "pay i > m" | (lt) "pay i < m" by force
  then show ?case
  proof cases
    case eq
    then show ?thesis using ls x IH [of m "b @ [t]"] by simp
  next
    case gt
    have "pay i \<le> ?M (pay i)" by (rule fold_max_ge)
    then have "?M (pay i) \<noteq> m" using gt by simp
    moreover have "max (pay i) m = pay i" using gt by simp
    ultimately show ?thesis using ls x gt IH [of "pay i" "[t]"] by simp
  next
    case lt
    have "m \<le> ?M m" by (rule fold_max_ge)
    then have "pay i \<noteq> ?M m" using lt by simp
    moreover have "max (pay i) m = m" using lt by simp
    ultimately show ?thesis using ls x lt IH [of m b] by simp
  qed
qed

text \<open>The search on a timeline whose window at anchor \<open>k\<close> the evaluator pays \<open>pay k\<close>: the
  maximum is the greatest of 0 and the payouts, the best times are the times of the anchors
  that pay it, and the search raises \<open>IndexError\<close> when there is none (every payout negative,
  or no event at all).\<close>

lemma findOptimalWindow_result:
  assumes "\<forall>k<length es. f (window_amounts es w k) = Inr (pay k)"
  shows "findOptimalWindow es w f =
     (case map (\<lambda>k. fst (es ! k))
             (filter (\<lambda>k. pay k = fold max (map pay [0..<length es]) 0) [0..<length es]) of
        [] \<Rightarrow> Inl IndexError
      | b # bs \<Rightarrow> Inr (b, b # bs, fold max (map pay [0..<length es]) 0))"
proof -
  let ?its = "enumerate 0 (map fst es)"
  have its: "?its = map (\<lambda>k. (k, fst (es ! k))) [0..<length es]"
    by (rule enumerate_timeline)
  have "\<forall>(i, t)\<in>set ?its.
          \<exists>ls. curLosses w (map fst es) (map snd es) i t = Inr ls \<and> f ls = Inr (pay i)"
    using assms by (auto simp: its curLosses_timeline)
  from find_window_loop_result [OF this, of 0 "[]"]
  have "find_window_loop w f (map fst es) (map snd es) ?its (0, []) =
     Inr (fold max (map pay [0..<length es]) 0,
          map (\<lambda>k. fst (es ! k))
            (filter (\<lambda>k. pay k = fold max (map pay [0..<length es]) 0) [0..<length es]))"
    by (simp add: its comp_def filter_map)
  then show ?thesis
    by (simp add: findOptimalWindow_def find_window_def split: list.splits)
qed

lemma filter_upt_first:
  assumes "i < n" "Q i" "\<forall>k<i. \<not> Q k"
  shows "filter Q [0..<n] = i # filter Q [Suc i..<n]"
proof -
  have "[0..<n] = [0..<i] @ i # [Suc i..<n]"
    using assms(1) upt_add_eq_append [of 0 i "n - i"] by (simp add: upt_conv_Cons)
  moreover have "filter Q [0..<i] = []" using assms(3) by simp
  ultimately show ?thesis using assms(2) by simp
qed

text \<open>When the greatest payout is not negative and anchor \<open>i\<close> is the first to attain it.\<close>

lemma findOptimalWindow_maximum:
  assumes pay: "\<forall>k<length es. f (window_amounts es w k) = Inr (pay k)"
    and i: "i < length es" and mx: "\<forall>k<length es. pay k \<le> pay i" and nonneg: "0 \<le> pay i"
    and first: "\<forall>k<i. pay k \<noteq> pay i"
  shows "findOptimalWindow es w f =
     Inr (fst (es ! i),
          map (\<lambda>k. fst (es ! k)) (filter (\<lambda>k. pay k = pay i) [0..<length es]),
          pay i)"
proof -
  have M: "fold max (map pay [0..<length es]) 0 = pay i"
    using mx nonneg i by (intro fold_max_eq) auto
  have "filter (\<lambda>k. pay k = pay i) [0..<length es] =
      i # filter (\<lambda>k. pay k = pay i) [Suc i..<length es]"
    using i first by (intro filter_upt_first) auto
  then show ?thesis
    using findOptimalWindow_result [OF pay] by (simp add: M)
qed


lemma constant_payout:
  assumes "es \<noteq> []" and "\<forall>k<length es. f (window_amounts es w k) = Inr p" and "0 \<le> p"
  shows "findOptimalWindow es w f = Inr (fst (hd es), map fst es, p)"
proof -
  have "findOptimalWindow es w f =
     Inr (fst (es ! 0), map (\<lambda>k. fst (es ! k)) (filter (\<lambda>k. p = p) [0..<length es]), p)"
    using assms by (intro findOptimalWindow_maximum [where pay = "\<lambda>k. p"]) auto
  moreover have "map (\<lambda>k. fst (es ! k)) [0..<length es] = map fst es"
    by (rule nth_equalityI) simp_all
  ultimately show ?thesis using assms(1) by (simp add: hd_conv_nth)
qed

section \<open>The claims\<close>

text \<open>Claim C1. On the timeline [(0,5), (1,10), (2,20)] with window length 2 and the single
  layer with deductible 10 and limit 30, the windows anchored at the three events pay 5, 20
  and 10, and the search returns the maximal payout 20, the best times [1] and the canonical
  best time 1.\<close>

theorem scenario_three_events:
  "treaty_CatXL (10::int) 30 = Inr (treaty_CatXL_lambda 10 30) \<and>
   treaty_CatXL_lambda (10::int) 30 (window_amounts [(0::int, 5), (1, 10), (2, 20)] 2 0) = Inr 5 \<and>
   treaty_CatXL_lambda (10::int) 30 (window_amounts [(0::int, 5), (1, 10), (2, 20)] 2 1) = Inr 20 \<and>
   treaty_CatXL_lambda (10::int) 30 (window_amounts [(0::int, 5), (1, 10), (2, 20)] 2 2) = Inr 10 \<and>
   findOptimalWindow [(0::int, 5::int), (1, 10), (2, 20)] 2 (treaty_CatXL_lambda 10 30) =
     Inr (1, [1], 20)"
  by (simp add: treaty_CatXL_def treaty_CatXL_lambda_def window_amounts_def
      findOptimalWindow_def find_window_def curLosses_def mask_select_def)

text \<open>Claim C2, as it is stated, fails: the source checks neither the window length nor the
  timeline. With window length 0 the single-event timeline [(0,5)] gives the empty window,
  the layer (10, 30) pays 0 on it, which equals the initial maximum, and a result is
  returned.\<close>

theorem nonpositive_window_returns:
  "treaty_CatXL (10::int) 30 = Inr (treaty_CatXL_lambda 10 30) \<and>
   findOptimalWindow [(0::int, 5::int)] 0 (treaty_CatXL_lambda 10 30) = Inr (0, [0], 0)"
  by (simp add: treaty_CatXL_def treaty_CatXL_lambda_def
      findOptimalWindow_def find_window_def curLosses_def mask_select_def)

text \<open>Claim C2, amended. On the empty timeline the search fails for every window length and
  every evaluator: the loop body never runs, so the evaluator is never called, and
  \<open>bestTimes[0]\<close> raises \<open>IndexError\<close>; no result is produced. A window length that is
  not positive is not rejected: on a non-empty sorted timeline every window is then empty,
  and with an evaluator that pays \<open>p \<ge> 0\<close> on the empty sequence the search returns the
  first event's time, all the events' times and \<open>p\<close>.\<close>

theorem empty_timeline_fails:
  "findOptimalWindow [] w f = Inl IndexError \<and>
   find_window w f [] lossVec = Inl IndexError \<and>
   (es \<noteq> [] \<and> sorted (map fst es) \<and> w' \<le> 0 \<and> g [] = Inr p \<and> 0 \<le> p \<longrightarrow>
      findOptimalWindow es w' g = Inr (fst (hd es), map fst es, p))"
proof -
  have "findOptimalWindow es w' g = Inr (fst (hd es), map fst es, p)"
    if "es \<noteq> []" "sorted (map fst es)" "w' \<le> 0" "g [] = Inr p" "0 \<le> p"
    using that by (intro constant_payout) (simp_all add: window_amounts_empty)
  then show ?thesis
    by (simp add: findOptimalWindow_def find_window_def)
qed

theorem empty_timeline_fails_witness:
  "findOptimalWindow ([] :: (int \<times> int) list) 2 (treaty_CatXL_lambda 10 30) = Inl IndexError \<and>
   find_window (2::int) (treaty_CatXL_lambda (10::int) 30) [] [5] = Inl IndexError \<and>
   [(0::int, 5::int), (1, 10)] \<noteq> [] \<and> sorted (map fst [(0::int, 5::int), (1, 10)]) \<and>
   (-1::int) \<le> 0 \<and> treaty_CatXL_lambda (10::int) 30 [] = Inr 0 \<and> (0::int) \<le> 0 \<and>
   findOptimalWindow [(0::int, 5::int), (1, 10)] (-1) (treaty_CatXL_lambda 10 30) =
     Inr (0, [0, 1], 0)"
  using empty_timeline_fails [of "2::int" "treaty_CatXL_lambda (10::int) 30" "[5]"
      "[(0::int, 5::int), (1, 10)]" "-1" "treaty_CatXL_lambda (10::int) 30" 0]
  by (simp add: treaty_CatXL_lambda_def)

text \<open>Claim C3. For a layer with limit above deductible the constructor returns its closure,
  and on every sequence of losses (non-negative or not) the closure returns
  clamp(sum(losses) - deductible, 0, limit - deductible), that is
  min(max(sum(losses) - deductible, 0), limit - deductible), a value between 0 and
  limit - deductible inclusive.\<close>

theorem single_layer_clamp:
  assumes "deductible < limit"
  shows "treaty_CatXL deductible limit = Inr (treaty_CatXL_lambda deductible limit) \<and>
         treaty_CatXL_lambda deductible limit losses =
           Inr (clamp (sum_list losses - deductible) 0 (limit - deductible)) \<and>
         clamp (sum_list losses - deductible) 0 (limit - deductible) =
           min (max (sum_list losses - deductible) 0) (limit - deductible) \<and>
         0 \<le> clamp (sum_list losses - deductible) 0 (limit - deductible) \<and>
         clamp (sum_list losses - deductible) 0 (limit - deductible) \<le> limit - deductible"
  using assms by (simp add: treaty_CatXL_def treaty_CatXL_lambda_def clamp_def)

theorem single_layer_clamp_witness:
  "(10::int) < 30 \<and> treaty_CatXL (10::int) 30 = Inr (treaty_CatXL_lambda 10 30) \<and>
   treaty_CatXL_lambda (10::int) 30 [5, 10, 20] = Inr 20 \<and>
   clamp (sum_list [5, 10, 20] - 10) 0 (30 - 10) = (20::int)"
proof -
  have h: "(10::int) < 30" by simp
  show ?thesis
    using single_layer_clamp [OF h, of "[5, 10, 20]"] by (simp add: clamp_def)
qed

text \<open>Claim C4. For a two-layer inuring chain with l1 > d1 and l2 > d2 the constructor returns
  its closure, and on every sequence of losses the closure returns payout1 + payout2, where
  payout1 = clamp(total - d1, 0, l1 - d1) with total = sum(losses), and
  payout2 = clamp((total - payout1) - d2, 0, l2 - d2): the second layer sees what the
  first has left. The order of the layers matters: on the single loss 12 the chain
  [(0,10), (5,20)] and the chain [(5,20), (0,10)] pay different amounts.\<close>

theorem inuring_two_layers:
  assumes "d1 < l1" and "d2 < l2"
  shows "treaty_inuring_CatXL d1 l1 d2 l2 = Inr (treaty_inuring_CatXL_res_func d1 l1 d2 l2) \<and>
         treaty_inuring_CatXL_res_func d1 l1 d2 l2 losses =
           Inr (clamp (sum_list losses - d1) 0 (l1 - d1) +
                clamp ((sum_list losses - clamp (sum_list losses - d1) 0 (l1 - d1)) - d2) 0
                  (l2 - d2)) \<and>
         treaty_inuring_CatXL_res_func (0::int) 10 5 20 [12] \<noteq>
           treaty_inuring_CatXL_res_func 5 20 0 10 [12]"
  using assms
  by (simp add: treaty_inuring_CatXL_def treaty_inuring_CatXL_res_func_def treaty_CatXL_def
      treaty_CatXL_lambda_def clamp_def Let_def)

theorem inuring_two_layers_witness:
  "(0::int) < 10 \<and> (5::int) < 20 \<and>
   treaty_inuring_CatXL (0::int) 10 5 20 = Inr (treaty_inuring_CatXL_res_func 0 10 5 20) \<and>
   treaty_inuring_CatXL_res_func (0::int) 10 5 20 [12, 8] = Inr 15"
proof -
  have h1: "(0::int) < 10" and h2: "(5::int) < 20" by simp_all
  show ?thesis
    using inuring_two_layers [OF h1 h2, of "[12, 8]"] by (simp add: clamp_def)
qed

text \<open>Claim C5. For a validated Program (every layer's deductible below its limit, every
  later layer's deductible at or above the previous layer's limit) the constructor returns
  its closure, and on every sequence of losses the closure returns the sum over the layers
  of the single-layer payout on the same aggregate total sum(losses), which is what the
  single-layer closure returns on the total as one amount; the sum is at most the sum of
  limit - deductible over the layers.\<close>

theorem program_independent_layers:
  assumes "valid_program prog"
  shows "treaty_CatXL_program (map fst prog) (map snd prog) =
           Inr (treaty_CatXL_program_res_func (map fst prog) (map snd prog)) \<and>
         treaty_CatXL_program_res_func (map fst prog) (map snd prog) losses =
           Inr (sum_list (map (layer_payout (sum_list losses)) prog)) \<and>
         (\<forall>layer\<in>set prog.
            treaty_CatXL (fst layer) (snd layer) =
              Inr (treaty_CatXL_lambda (fst layer) (snd layer)) \<and>
            treaty_CatXL_lambda (fst layer) (snd layer) [sum_list losses] =
              Inr (layer_payout (sum_list losses) layer) \<and>
            treaty_CatXL_lambda (fst layer) (snd layer) losses =
              Inr (layer_payout (sum_list losses) layer)) \<and>
         sum_list (map (layer_payout (sum_list losses)) prog) \<le>
           sum_list (map (\<lambda>layer. snd layer - fst layer) prog)"
proof -
  have layers: "\<forall>layer\<in>set prog. fst layer < snd layer"
    using assms by (rule valid_program_layers)
  have "sum_list (map (layer_payout (sum_list losses)) prog) \<le>
      sum_list (map (\<lambda>layer. snd layer - fst layer) prog)"
    using layers by (intro sum_list_mono) (simp add: layer_payout_le)
  moreover have "\<forall>layer\<in>set prog.
            treaty_CatXL (fst layer) (snd layer) =
              Inr (treaty_CatXL_lambda (fst layer) (snd layer)) \<and>
            treaty_CatXL_lambda (fst layer) (snd layer) [sum_list losses] =
              Inr (layer_payout (sum_list losses) layer) \<and>
            treaty_CatXL_lambda (fst layer) (snd layer) losses =
              Inr (layer_payout (sum_list losses) layer)"
    using layers by (simp add: treaty_CatXL_def treaty_CatXL_lambda_clamp)
  ultimately show ?thesis
    using valid_program_construct [OF assms] by blast
qed

theorem program_independent_layers_witness:
  "valid_program [(0::int, 10), (10, 25), (30, 50)] \<and>
   treaty_CatXL_program [0::int, 10, 30] [10, 25, 50] =
     Inr (treaty_CatXL_program_res_func [0, 10, 30] [10, 25, 50]) \<and>
   treaty_CatXL_program_res_func [0::int, 10, 30] [10, 25, 50] [12, 20] = Inr 27 \<and>
   (27::int) \<le> 45"
proof -
  have h: "valid_program [(0::int, 10), (10, 25), (30, 50)]" by simp
  show ?thesis
    using program_independent_layers [OF h, of "[12, 20]"]
    by (simp add: layer_payout_def clamp_def)
qed





text \<open>Claim C8, as it is stated, fails: a layer may have a negative deductible (the
  constructor asks only for limit > deductible), and then it pays on the empty sequence.
  The layer with deductible -5 and limit 10 is accepted and pays 5 on no losses.\<close>

theorem negative_deductible_pays_on_empty:
  "treaty_CatXL (-5::int) 10 = Inr (treaty_CatXL_lambda (-5) 10) \<and>
   treaty_CatXL_lambda (-5::int) 10 [] = Inr 5"
  by (simp add: treaty_CatXL_def treaty_CatXL_lambda_def)

text \<open>Claim C8, amended. Every treaty evaluator whose deductibles are all non-negative
  returns payout 0 on the empty sequence of amounts: a single layer does so exactly when its
  deductible is non-negative, a two-layer inuring chain when both deductibles are, and a
  validated Program when all its deductibles are.\<close>

theorem empty_losses_pay_zero:
  "(d < l \<longrightarrow> (treaty_CatXL_lambda d l [] = Inr 0 \<longleftrightarrow> 0 \<le> d)) \<and>
   (d1 < l1 \<and> d2 < l2 \<and> 0 \<le> d1 \<and> 0 \<le> d2 \<longrightarrow>
      treaty_inuring_CatXL_res_func d1 l1 d2 l2 [] = Inr 0) \<and>
   (valid_program prog \<and> (\<forall>layer\<in>set prog. 0 \<le> fst layer) \<longrightarrow>
      treaty_CatXL_program_res_func (map fst prog) (map snd prog) [] = Inr 0)"
proof -
  have single: "treaty_CatXL_lambda d l [] = Inr 0 \<longleftrightarrow> 0 \<le> d" if "d < l"
    using that by (auto simp: treaty_CatXL_lambda_def min_def max_def)
  have chain: "treaty_inuring_CatXL_res_func d1 l1 d2 l2 [] = Inr 0"
    if "d1 < l1" "d2 < l2" "0 \<le> d1" "0 \<le> d2"
    using that
    by (simp add: treaty_inuring_CatXL_res_func_def treaty_CatXL_def treaty_CatXL_lambda_def
        Let_def)
  have program: "treaty_CatXL_program_res_func (map fst prog) (map snd prog) [] = Inr 0"
    if v: "valid_program prog" and nn: "\<forall>layer\<in>set prog. 0 \<le> fst layer"
  proof -
    have "\<forall>layer\<in>set prog. layer_payout 0 layer = 0"
      using valid_program_layers [OF v] nn by (auto simp: layer_payout_def clamp_def)
    then have "sum_list (map (layer_payout 0) prog) = 0"
      by (induction prog) simp_all
    then show ?thesis using valid_program_construct(2) [OF v, of "[]"] by simp
  qed
  show ?thesis using single chain program by blast
qed

theorem empty_losses_pay_zero_witness:
  "(10::int) < 30 \<and> (0::int) \<le> 10 \<and> treaty_CatXL_lambda (10::int) 30 [] = Inr 0 \<and>
   (0::int) < 10 \<and> (5::int) < 20 \<and> treaty_inuring_CatXL_res_func (0::int) 10 5 20 [] = Inr 0 \<and>
   valid_program [(0::int, 10), (10, 25)] \<and> (0::int) \<le> 0 \<and> (0::int) \<le> 10 \<and>
   treaty_CatXL_program_res_func [0::int, 10] [10, 25] [] = Inr 0"
  using empty_losses_pay_zero [of "10::int" 30 0 10 5 20 "[(0, 10), (10, 25)]"]
  by simp

text \<open>Claim C9. On a non-empty sorted timeline on which the evaluator pays 0 on every
  candidate window, the search returns the maximal payout 0, as best times the times of all
  the events in the timeline's (ascending) order, and as canonical best time the first
  event's time: the running maximum starts at 0 and every anchor ties with it.\<close>

theorem all_zero_payouts:
  assumes "es \<noteq> []" and "sorted (map fst es)"
    and "\<forall>k<length es. f (window_amounts es w k) = Inr 0"
  shows "findOptimalWindow es w f = Inr (fst (hd es), map fst es, 0) \<and> sorted (map fst es)"
  using constant_payout [OF assms(1,3)] assms(2) by simp

theorem all_zero_payouts_witness:
  "[(0::int, 5::int), (1, 10), (2, 20)] \<noteq> [] \<and>
   sorted (map fst [(0::int, 5::int), (1, 10), (2, 20)]) \<and>
   treaty_CatXL_lambda 100 200 (window_amounts [(0::int, 5::int), (1, 10), (2, 20)] 2 0) = Inr 0 \<and>
   treaty_CatXL_lambda 100 200 (window_amounts [(0::int, 5::int), (1, 10), (2, 20)] 2 1) = Inr 0 \<and>
   treaty_CatXL_lambda 100 200 (window_amounts [(0::int, 5::int), (1, 10), (2, 20)] 2 2) = Inr 0 \<and>
   findOptimalWindow [(0::int, 5::int), (1, 10), (2, 20)] 2 (treaty_CatXL_lambda 100 200) =
     Inr (0, [0, 1, 2], 0)"
proof -
  let ?es = "[(0::int, 5::int), (1, 10), (2, 20)]"
  have h1: "?es \<noteq> []" by simp
  have h2: "sorted (map fst ?es)" by simp
  have h3: "\<forall>k<length ?es. treaty_CatXL_lambda 100 200 (window_amounts ?es 2 k) = Inr 0"
    by (simp add: less_Suc_eq window_amounts_def treaty_CatXL_lambda_def)
  from all_zero_payouts [OF h1 h2 h3]
  have "findOptimalWindow ?es 2 (treaty_CatXL_lambda 100 200) = Inr (0, [0, 1, 2], 0)"
    by simp
  moreover have "treaty_CatXL_lambda 100 200 (window_amounts ?es 2 0) = Inr 0"
    "treaty_CatXL_lambda 100 200 (window_amounts ?es 2 1) = Inr 0"
    "treaty_CatXL_lambda 100 200 (window_amounts ?es 2 2) = Inr 0"
    using h3 by simp_all
  ultimately show ?thesis using h2 by simp
qed



end
